theory Spec2Isabelle
  imports Main "HOL-Library.Char_ord" "HOL-Library.List_Lexorder"
begin

section \<open>Buttons: \<open>ButtonHandler\<close>\<close>

text \<open>
  A button line is read with \<open>Pin.value()\<close>, which is 1 while the line is high and 0
  while it is low. The lines are pulled up, so a pressed button reads 0 and the source
  tests \<open>not self.btn1.value()\<close>. A line is modelled by its level at every millisecond:
  \<open>True\<close> is high (value 1, released), \<open>False\<close> is low (value 0, pressed).

  Time is the millisecond counter \<open>time.ticks_ms()\<close>. The only statements that let time
  pass are the calls \<open>time.sleep_ms(n)\<close>, which advance it by \<open>n\<close>; reading a pin or the
  counter takes no time. The counter is taken below its wrap-around, so that
  \<open>time.ticks_diff(a, b)\<close> is the difference \<open>a - b\<close>.
\<close>

type_synonym pin = "nat \<Rightarrow> bool"

definition pin_value :: "pin \<Rightarrow> nat \<Rightarrow> bool" where
  "pin_value p t = p t"

definition ticks_diff :: "nat \<Rightarrow> nat \<Rightarrow> int" where
  "ticks_diff a b = int a - int b"

record ButtonHandler =
  btn1 :: pin
  btn2 :: pin
  long_press_ms :: int
  debounce_ms :: nat

definition ButtonHandler_init :: "pin \<Rightarrow> pin \<Rightarrow> ButtonHandler" where
  "ButtonHandler_init pin1 pin2 =
     \<lparr>btn1 = pin1, btn2 = pin2, long_press_ms = 800, debounce_ms = 50\<rparr>"

text \<open>
  \<open>while not self.btnX.value(): time.sleep_ms(10)\<close>: poll one line every 10 ms until it
  reads released. The result is the time at which the loop is left; \<open>None\<close> when the
  line stays pressed at every poll, so that the loop never ends.
\<close>

partial_function (option) wait_release :: "pin \<Rightarrow> nat \<Rightarrow> nat option" where
  "wait_release p t =
     (if \<not> pin_value p t then wait_release p (t + 10) else Some t)"

text \<open>
  \<open>while not self.btn1.value() or not self.btn2.value(): time.sleep_ms(10)\<close>: the inner
  loop of the both-button branch, left when both lines read released.
\<close>

partial_function (option) wait_release_both :: "pin \<Rightarrow> pin \<Rightarrow> nat \<Rightarrow> nat option" where
  "wait_release_both p q t =
     (if \<not> pin_value p t \<or> \<not> pin_value q t then wait_release_both p q (t + 10)
      else Some t)"

text \<open>
  The outer loop of the both-button branch (source lines 129-137). It runs while either
  line reads pressed. Once more than \<open>long_press_ms\<close> have passed since \<open>press_start\<close> it
  waits for both lines to read released and returns \<open>'both_long'\<close>; when the loop
  condition fails first it returns \<open>'both_short'\<close>.
\<close>

partial_function (option) both_loop ::
  "ButtonHandler \<Rightarrow> nat \<Rightarrow> nat \<Rightarrow> (string \<times> nat) option" where
  "both_loop h press_start t =
     (if \<not> pin_value (btn1 h) t \<or> \<not> pin_value (btn2 h) t then
        (if ticks_diff t press_start > long_press_ms h then
           (case wait_release_both (btn1 h) (btn2 h) t of
              None \<Rightarrow> None
            | Some t' \<Rightarrow> Some (''both_long'', t'))
         else both_loop h press_start (t + 10))
      else Some (''both_short'', t))"

text \<open>
  The hold-detection loop of a single-button branch (source lines 143-157 for button 1,
  167-181 for button 2; the two copies differ only in which line is \<open>held\<close> and which is
  \<open>other\<close>). The result is \<open>(True, t)\<close> when the hold+tap combination was completed at
  time \<open>t\<close> (the source returns from inside the loop), and \<open>(False, t)\<close> when the loop
  was left at time \<open>t\<close> through its condition or through the timeout \<open>break\<close>.
\<close>

partial_function (option) hold_loop ::
  "pin \<Rightarrow> pin \<Rightarrow> ButtonHandler \<Rightarrow> nat \<Rightarrow> nat \<Rightarrow> (bool \<times> nat) option" where
  "hold_loop held other h press_start t =
     (if \<not> pin_value held t then
        (if \<not> pin_value other t then
           (case wait_release other (t + debounce_ms h) of
              None \<Rightarrow> None
            | Some t1 \<Rightarrow>
                (case wait_release held t1 of
                   None \<Rightarrow> None
                 | Some t2 \<Rightarrow> Some (True, t2)))
         else if ticks_diff t press_start > long_press_ms h then Some (False, t)
         else hold_loop held other h press_start (t + 10))
      else Some (False, t))"

text \<open>
  A whole single-button branch (source lines 140-162 and 164-186): the hold-detection
  loop, and after it the wait for the held line's release.
\<close>

definition single_branch ::
  "pin \<Rightarrow> pin \<Rightarrow> string \<Rightarrow> string \<Rightarrow> ButtonHandler \<Rightarrow> nat \<Rightarrow> (string \<times> nat) option" where
  "single_branch held other combo short h t =
     (case hold_loop held other h t t of
        None \<Rightarrow> None
      | Some (True, t2) \<Rightarrow> Some (combo, t2)
      | Some (False, t1) \<Rightarrow>
          (case wait_release held t1 of
             None \<Rightarrow> None
           | Some t2 \<Rightarrow> Some (short, t2)))"

text \<open>
  \<open>ButtonHandler.get_input\<close>, called at time \<open>t\<close>. The result is \<open>None\<close> when the call
  never returns, and otherwise the returned value (\<open>None\<close> for Python's \<open>None\<close>) with the
  time of the return.
\<close>

definition get_input :: "ButtonHandler \<Rightarrow> nat \<Rightarrow> (string option \<times> nat) option" where
  "get_input h t =
     (let btn1_pressed = \<not> pin_value (btn1 h) t;
          btn2_pressed = \<not> pin_value (btn2 h) t
      in if \<not> btn1_pressed \<and> \<not> btn2_pressed then Some (None, t)
         else
           (let t = t + debounce_ms h
            in if btn1_pressed \<and> btn2_pressed then
                 map_option (\<lambda>(g, t'). (Some g, t')) (both_loop h t t)
               else if btn1_pressed then
                 map_option (\<lambda>(g, t'). (Some g, t'))
                   (single_branch (btn1 h) (btn2 h)
                      ''btn1_hold_btn2_tap'' ''btn1_short'' h t)
               else if btn2_pressed then
                 map_option (\<lambda>(g, t'). (Some g, t'))
                   (single_branch (btn2 h) (btn1 h)
                      ''btn2_hold_btn1_tap'' ''btn2_short'' h t)
               else Some (None, t)))"

declare wait_release.simps [code]
declare wait_release_both.simps [code]
declare both_loop.simps [code]
declare hold_loop.simps [code]

text \<open>
  Helpers for stating properties of traces: whether at least one line reads pressed at a
  given time, and the trace of a button that is held down from time \<open>a\<close> up to (not
  including) time \<open>b\<close> and released otherwise.
\<close>

definition some_pressed :: "ButtonHandler \<Rightarrow> nat \<Rightarrow> bool" where
  "some_pressed h t = (\<not> (pin_value (btn1 h) t \<and> pin_value (btn2 h) t))"

definition pressed_during :: "nat \<Rightarrow> nat \<Rightarrow> pin" where
  "pressed_during a b t = (\<not> (a \<le> t \<and> t < b))"

section \<open>Python string operations used by the source\<close>

text \<open>\<open>s.endswith(suffix)\<close>.\<close>

definition endswith :: "string \<Rightarrow> string \<Rightarrow> bool" where
  "endswith s suffix =
     (length suffix \<le> length s \<and> drop (length s - length suffix) s = suffix)"

text \<open>\<open>s.rstrip(c)\<close> for a single character \<open>c\<close>: drop every trailing \<open>c\<close>.\<close>

definition rstrip :: "char \<Rightarrow> string \<Rightarrow> string" where
  "rstrip c s = rev (dropWhile (\<lambda>x. x = c) (rev s))"

text \<open>
  \<open>s.split(c)\<close> for a single character \<open>c\<close>: the pieces between the occurrences of
  \<open>c\<close>, empty pieces included; the empty string splits into one empty piece.
\<close>

fun split :: "char \<Rightarrow> string \<Rightarrow> string list" where
  "split c [] = [[]]"
| "split c (x # xs) =
     (if x = c then [] # split c xs
      else (case split c xs of
              [] \<Rightarrow> [[x]]
            | w # ws \<Rightarrow> (x # w) # ws))"

text \<open>\<open>sep.join(parts)\<close>.\<close>

fun join :: "string \<Rightarrow> string list \<Rightarrow> string" where
  "join sep [] = []"
| "join sep [x] = x"
| "join sep (x # y # ys) = x @ sep @ join sep (y # ys)"

section \<open>Display\<close>

text \<open>
  \<open>Display.__init__\<close> sets \<open>max_lines = 6\<close> and \<open>max_chars = 16\<close> (128 pixels, 8 pixels
  per character); nothing assigns to them afterwards.
\<close>

definition max_lines :: int where
  "max_lines = 6"

definition max_chars :: nat where
  "max_chars = 16"

text \<open>
  The text that \<open>Display.draw_lines(lines, scroll_offset)\<close> puts on the screen: the
  slice \<open>lines[scroll_offset : scroll_offset + max_lines]\<close>, each line cut to
  \<open>line[:max_chars]\<close>. The pixels are not modelled.
\<close>

definition draw_lines :: "string list \<Rightarrow> nat \<Rightarrow> string list" where
  "draw_lines lines scroll = map (take max_chars) (take (nat max_lines) (drop scroll lines))"

section \<open>Running a script: \<open>ProcessControl\<close> and \<open>SubprocessManager\<close>\<close>

record ProcessControl =
  should_exit :: bool

definition request_exit :: "ProcessControl \<Rightarrow> ProcessControl" where
  "request_exit pc = pc\<lparr>should_exit := True\<rparr>"

definition clear_exit :: "ProcessControl \<Rightarrow> ProcessControl" where
  "clear_exit pc = pc\<lparr>should_exit := False\<rparr>"

definition check_exit :: "ProcessControl \<Rightarrow> bool" where
  "check_exit pc = should_exit pc"

record SubprocessManager =
  running :: bool

text \<open>
  What happens in the \<open>try\<close> block of \<open>execute_file\<close> after the flag is cleared (the
  screen output, the start of the monitor thread, \<open>open\<close>, \<open>read\<close> and \<open>exec\<close>) is the
  environment's choice: the block runs to its end, or raises \<open>KeyboardInterrupt\<close>, or
  raises an \<open>Exception\<close> whose \<open>str\<close> is the given message, or raises something that
  neither \<open>except\<close> clause catches (\<open>SystemExit\<close>, which is not an \<open>Exception\<close>).
  A script that never ends, and a run cut short by the monitor's \<open>machine.reset()\<close>, do
  not come back from the call at all and are not among the outcomes.
\<close>

datatype body_outcome =
  Body_completed
| Body_keyboard_interrupt
| Body_exception string
| Body_uncaught

text \<open>
  The monitor thread (\<open>monitor_exit_buttons\<close>, started inside the \<open>try\<close> block and never
  joined) calls \<open>request_exit()\<close> when its \<open>get_input()\<close> returns \<open>'both_short'\<close>. It
  reads \<open>self.running\<close> only at the top of its loop, not between the return of the
  blocking \<open>get_input()\<close> and the call, so its write to the flag can land at any moment of
  the main thread: while the script runs, after the cleanup of \<open>execute_file\<close>, or after
  the return; and the thread of an earlier run can still be alive. Whether a write lands
  at a given point is the environment's choice: \<open>monitor_request True\<close> is a
  \<open>request_exit()\<close> landing there, \<open>monitor_request False\<close> is none.
\<close>

definition monitor_request :: "bool \<Rightarrow> ProcessControl \<Rightarrow> ProcessControl" where
  "monitor_request lands pc = (if lands then request_exit pc else pc)"

text \<open>
  \<open>SubprocessManager.execute_file\<close>. The state is the global \<open>ProcessControl\<close> and the
  manager. \<open>requested\<close> says whether a monitor's \<open>request_exit()\<close> lands while the \<open>try\<close>
  block runs, between the first \<open>clear_exit()\<close> and the cleanup; \<open>late\<close> says whether one
  lands after the last statement of \<open>execute_file\<close> that touches the flag and before the
  function is left (on the rejection branch, which never touches the flag, at any moment
  of the call). A write that lands before the first \<open>clear_exit()\<close> acts like a flag set
  on entry, and one that lands after the function is left is part of the state on entry
  of whatever is called next. The result is the returned list of lines, or
  \<open>None\<close> when an exception leaves the function.
\<close>

definition execute_file ::
  "body_outcome \<Rightarrow> bool \<Rightarrow> bool \<Rightarrow> string \<Rightarrow> ProcessControl \<times> SubprocessManager
     \<Rightarrow> (ProcessControl \<times> SubprocessManager) \<times> string list option" where
  "execute_file body requested late filepath st =
     (case st of (pc, sm) \<Rightarrow>
        if \<not> endswith filepath ''.py''
        then ((monitor_request late pc, sm), Some [''Error:'', ''Not a .py file''])
        else
          (let pc = clear_exit pc;
               sm = sm\<lparr>running := True\<rparr>;
               pc = monitor_request requested pc
           in case body of
                Body_completed \<Rightarrow>
                  ((monitor_request late (clear_exit pc), sm\<lparr>running := False\<rparr>),
                   Some [''Process exited'', ''normally''])
              | Body_keyboard_interrupt \<Rightarrow>
                  ((monitor_request late (clear_exit pc), sm\<lparr>running := False\<rparr>),
                   Some [''Process'', ''interrupted''])
              | Body_exception error_msg \<Rightarrow>
                  ((monitor_request late (clear_exit pc), sm\<lparr>running := False\<rparr>),
                   Some [''Exec Error:'', take 40 error_msg,
                         if length error_msg > 40 then take 40 (drop 40 error_msg) else []])
              | Body_uncaught \<Rightarrow> ((monitor_request late pc, sm), None)))"

section \<open>File browser: \<open>FileBrowser\<close>\<close>

text \<open>
  The file system is the function \<open>os.listdir\<close>: for a path, the names of its entries,
  or the message of the exception it raises (\<open>Inl\<close>).
\<close>

type_synonym filesystem = "string \<Rightarrow> string + string list"

record item =
  name :: string
  type :: string
  path :: string

record FileBrowser =
  current_path :: string
  items :: "item list"
  selected_index :: int
  scroll_offset :: int

definition get_parent_path :: "FileBrowser \<Rightarrow> string" where
  "get_parent_path fb =
     (if current_path fb = ''/'' then ''/''
      else
        (let parts = split CHR ''/'' (rstrip CHR ''/'' (current_path fb))
         in if length parts \<le> 1 then ''/''
            else (let joined = join ''/'' (butlast parts)
                  in if joined = [] then ''/'' else joined)))"

text \<open>
  The \<open>for\<close> loop of \<open>refresh_items\<close> over the sorted entries: \<open>main.py\<close> is skipped; an
  entry is a directory when \<open>os.listdir\<close> succeeds on its full path and a file when it
  raises.
\<close>

fun scan_entries :: "filesystem \<Rightarrow> string \<Rightarrow> string list \<Rightarrow> item list" where
  "scan_entries fs cp [] = []"
| "scan_entries fs cp (entry # entries) =
     (if entry = ''main.py'' then scan_entries fs cp entries
      else
        (let full_path = cp @ (if cp = ''/'' then [] else ''/'') @ entry
         in (case fs full_path of
               Inr _ \<Rightarrow> \<lparr>name = entry, type = ''dir'', path = full_path\<rparr>
             | Inl _ \<Rightarrow> \<lparr>name = entry, type = ''file'', path = full_path\<rparr>)
            # scan_entries fs cp entries))"

definition refresh_items :: "filesystem \<Rightarrow> FileBrowser \<Rightarrow> FileBrowser" where
  "refresh_items fs fb =
     (let new_items =
        (case fs (current_path fb) of
           Inr entries \<Rightarrow>
             (let listed = scan_entries fs (current_path fb) (sort entries)
              in if current_path fb \<noteq> ''/''
                 then \<lparr>name = ''..'', type = ''parent'', path = get_parent_path fb\<rparr> # listed
                 else listed)
         | Inl e \<Rightarrow> [\<lparr>name = ''Error: '' @ e, type = ''error'', path = []\<rparr>])
      in fb\<lparr>items := new_items, selected_index := 0, scroll_offset := 0\<rparr>)"

definition FileBrowser_init :: "filesystem \<Rightarrow> FileBrowser" where
  "FileBrowser_init fs =
     refresh_items fs \<lparr>current_path = ''/'', items = [], selected_index = 0, scroll_offset = 0\<rparr>"

definition next_item :: "FileBrowser \<Rightarrow> FileBrowser" where
  "next_item fb =
     (if items fb \<noteq> [] then
        (let sel = (selected_index fb + 1) mod int (length (items fb))
         in fb\<lparr>selected_index := sel,
               scroll_offset :=
                 (if sel < scroll_offset fb then sel
                  else if sel \<ge> scroll_offset fb + max_lines then sel - max_lines + 1
                  else scroll_offset fb)\<rparr>)
      else fb)"

definition scroll_down :: "FileBrowser \<Rightarrow> FileBrowser" where
  "scroll_down fb =
     (let max_scroll = max 0 (int (length (items fb)) - max_lines)
      in fb\<lparr>scroll_offset := min (scroll_offset fb + 1) max_scroll\<rparr>)"

definition scroll_up :: "FileBrowser \<Rightarrow> FileBrowser" where
  "scroll_up fb = fb\<lparr>scroll_offset := max 0 (scroll_offset fb - 1)\<rparr>"

definition get_selected_item :: "FileBrowser \<Rightarrow> item option" where
  "get_selected_item fb =
     (if items fb \<noteq> [] \<and> 0 \<le> selected_index fb \<and> selected_index fb < int (length (items fb))
      then Some (items fb ! nat (selected_index fb))
      else None)"

text \<open>
  \<open>FileBrowser.enter_selected\<close>: the browser after the call and the returned value
  (\<open>None\<close> for Python's \<open>None\<close>).
\<close>

definition enter_selected :: "filesystem \<Rightarrow> FileBrowser \<Rightarrow> FileBrowser \<times> string option" where
  "enter_selected fs fb =
     (case get_selected_item fb of
        None \<Rightarrow> (fb, None)
      | Some it \<Rightarrow>
          if type it = ''dir'' \<or> type it = ''parent''
          then (refresh_items fs (fb\<lparr>current_path := path it\<rparr>), None)
          else if type it = ''file'' then (fb, Some (path it))
          else (fb, None))"

section \<open>Menu: \<open>MenuSystem\<close>\<close>

record MenuSystem =
  menu_items :: "string list"
  menu_selected_index :: int

definition MenuSystem_init :: MenuSystem where
  "MenuSystem_init =
     \<lparr>menu_items = [''cfetch'', ''ctop'', ''cbin'', ''reboot''], menu_selected_index = 0\<rparr>"

text \<open>
  \<open>MenuSystem.next_item\<close>. Python's \<open>%\<close> raises \<open>ZeroDivisionError\<close> on an empty
  \<open>menu_items\<close>: the result is \<open>None\<close> then.
\<close>

definition menu_next_item :: "MenuSystem \<Rightarrow> MenuSystem option" where
  "menu_next_item m =
     (if menu_items m = [] then None
      else Some (m\<lparr>menu_selected_index :=
                      (menu_selected_index m + 1) mod int (length (menu_items m))\<rparr>))"

text \<open>\<open>n\<close> calls in a row, stopping at the first one that raises.\<close>

fun repeat_calls :: "nat \<Rightarrow> ('a \<Rightarrow> 'a option) \<Rightarrow> 'a \<Rightarrow> 'a option" where
  "repeat_calls 0 f x = Some x"
| "repeat_calls (Suc n) f x = (case f x of None \<Rightarrow> None | Some y \<Rightarrow> repeat_calls n f y)"

section \<open>The operating system object: \<open>CraneFlyOS\<close>\<close>

record CraneFlyOS =
  mode :: string
  output_lines :: "string list"
  os_scroll_offset :: int
  menu :: MenuSystem
  file_browser :: FileBrowser
  process_control :: ProcessControl
  subprocess_mgr :: SubprocessManager

text \<open>
  A handler either returns with the new state, or the machine resets
  (\<open>machine.reset()\<close>), or an exception leaves it.
\<close>

datatype halt = Reset | Uncaught

text \<open>\<open>CraneFlyOS.execute_file\<close>.\<close>

definition os_execute_file ::
  "body_outcome \<Rightarrow> bool \<Rightarrow> bool \<Rightarrow> string \<Rightarrow> CraneFlyOS \<Rightarrow> halt + CraneFlyOS" where
  "os_execute_file body requested late filepath os =
     (case execute_file body requested late filepath (process_control os, subprocess_mgr os) of
        ((pc, sm), None) \<Rightarrow> Inl Uncaught
      | ((pc, sm), Some result) \<Rightarrow>
          Inr (os\<lparr>process_control := pc, subprocess_mgr := sm,
                  output_lines := result, os_scroll_offset := 0, mode := ''output''\<rparr>))"

text \<open>
  \<open>CraneFlyOS.handle_cbin_input\<close>. The calls to \<open>show\<close> only draw and are left out.
  \<open>if file_to_exec:\<close> is false for \<open>None\<close> and for the empty string.
\<close>

definition handle_cbin_input ::
  "body_outcome \<Rightarrow> bool \<Rightarrow> bool \<Rightarrow> filesystem \<Rightarrow> string \<Rightarrow> CraneFlyOS
     \<Rightarrow> halt + CraneFlyOS" where
  "handle_cbin_input body requested late fs action os =
     (if action = ''btn1_short'' then Inr (os\<lparr>file_browser := next_item (file_browser os)\<rparr>)
      else if action = ''btn2_short'' then
        (case enter_selected fs (file_browser os) of (fb, file_to_exec) \<Rightarrow>
           (let os = os\<lparr>file_browser := fb\<rparr>
            in case file_to_exec of
                 None \<Rightarrow> Inr os
               | Some f \<Rightarrow> if f \<noteq> [] then os_execute_file body requested late f os else Inr os))
      else if action = ''btn1_hold_btn2_tap'' then
        Inr (os\<lparr>file_browser := scroll_down (file_browser os)\<rparr>)
      else if action = ''btn2_hold_btn1_tap'' then
        Inr (os\<lparr>file_browser := scroll_up (file_browser os)\<rparr>)
      else if action = ''both_short'' then Inr (os\<lparr>mode := ''menu''\<rparr>)
      else if action = ''both_long'' then Inl Reset
      else Inr os)"

section \<open>Paths and file systems for stating the properties\<close>

text \<open>
  The absolute path \<open>/seg1/.../segN\<close> with the given segments (the empty string for no
  segment).
\<close>

definition path_of :: "string list \<Rightarrow> string" where
  "path_of segs = concat (map (\<lambda>seg. CHR ''/'' # seg) segs)"

text \<open>
  A small file system: the root holds the launcher \<open>main.py\<close>, a script \<open>a.py\<close> and a
  directory \<open>tools\<close> with one script; \<open>os.listdir\<close> raises on everything else.
\<close>

definition sample_fs :: filesystem where
  "sample_fs p =
     (if p = ''/'' then Inr [''tools'', ''main.py'', ''a.py'']
      else if p = ''/tools'' then Inr [''blink.py'']
      else Inl ''[Errno 20] ENOTDIR'')"

text \<open>A file system on which every \<open>os.listdir\<close> raises (the storage has failed).\<close>

definition failed_fs :: filesystem where
  "failed_fs p = Inl ''[Errno 5] EIO''"

text \<open>
  A state of the operating system in file-browser mode on the sample file system: the
  browser is at the root with the second entry, \<open>tools\<close>, selected after one
  \<open>next_item\<close>.
\<close>

definition sample_os :: CraneFlyOS where
  "sample_os =
     \<lparr>mode = ''cbin'', output_lines = [], os_scroll_offset = 0, menu = MenuSystem_init,
      file_browser = next_item (FileBrowser_init sample_fs),
      process_control = \<lparr>should_exit = False\<rparr>,
      subprocess_mgr = \<lparr>running = False\<rparr>\<rparr>"

section \<open>Properties of the gesture decoder\<close>

subsection \<open>The polling loops\<close>

text \<open>
  When a polling loop is left, the line it waited for reads released, and time has not
  gone backwards.
\<close>

lemma wait_release_Some:
  "wait_release p t = Some t' \<Longrightarrow> pin_value p t' \<and> t \<le> t'"
proof (induction rule: wait_release.raw_induct[rotated, consumes 1])
  case (1 wr p t t')
  show ?case
  proof (cases "pin_value p t")
    case True
    with 1(2) show ?thesis by simp
  next
    case False
    with 1(2) have "wr p (t + 10) = Some t'" by simp
    from 1(1)[OF this] show ?thesis by simp
  qed
qed

lemma wait_release_both_Some:
  "wait_release_both p q t = Some t' \<Longrightarrow> pin_value p t' \<and> pin_value q t' \<and> t \<le> t'"
proof (induction rule: wait_release_both.raw_induct[rotated, consumes 1])
  case (1 wr p q t t')
  show ?case
  proof (cases "pin_value p t \<and> pin_value q t")
    case True
    with 1(2) show ?thesis by auto
  next
    case False
    with 1(2) have "wr p q (t + 10) = Some t'" by auto
    from 1(1)[OF this] show ?thesis by simp
  qed
qed

lemma both_loop_Some:
  "both_loop h ps t = Some r \<Longrightarrow>
     pin_value (btn1 h) (snd r) \<and> pin_value (btn2 h) (snd r) \<and> t \<le> snd r \<and>
     (fst r = ''both_short'' \<or> fst r = ''both_long'')"
proof (induction rule: both_loop.raw_induct[rotated, consumes 1])
  case (1 bl h ps t r)
  show ?case
  proof (cases "pin_value (btn1 h) t \<and> pin_value (btn2 h) t")
    case True
    with 1(2) show ?thesis by auto
  next
    case False
    note pressed = this
    show ?thesis
    proof (cases "ticks_diff t ps > long_press_ms h")
      case True
      with pressed 1(2) obtain t' where
        w: "wait_release_both (btn1 h) (btn2 h) t = Some t'" and r: "r = (''both_long'', t')"
        by (auto split: option.splits)
      from wait_release_both_Some[OF w] r show ?thesis by simp
    next
      case False
      with pressed 1(2) have "bl h ps (t + 10) = Some r" by auto
      from 1(1)[OF this] show ?thesis by simp
    qed
  qed
qed

lemma both_loop_long:
  "both_loop h ps t = Some r \<Longrightarrow> fst r = ''both_long'' \<Longrightarrow>
     \<exists>n. (\<forall>k\<le>n. some_pressed h (t + 10 * k)) \<and> ticks_diff (t + 10 * n) ps > long_press_ms h"
proof (induction rule: both_loop.raw_induct[rotated, consumes 1])
  case (1 bl h ps t r)
  show ?case
  proof (cases "pin_value (btn1 h) t \<and> pin_value (btn2 h) t")
    case True
    with 1(2,3) show ?thesis by auto
  next
    case False
    note pressed = this
    show ?thesis
    proof (cases "ticks_diff t ps > long_press_ms h")
      case True
      with pressed have "(\<forall>k\<le>0. some_pressed h (t + 10 * k)) \<and> ticks_diff (t + 10 * 0) ps > long_press_ms h"
        by (simp add: some_pressed_def)
      then show ?thesis by blast
    next
      case False
      with pressed 1(2) have "bl h ps (t + 10) = Some r" by auto
      from 1(1)[OF this 1(3)] obtain n where
        n: "\<forall>k\<le>n. some_pressed h (t + 10 + 10 * k)"
           "ticks_diff (t + 10 + 10 * n) ps > long_press_ms h" by blast
      have "\<forall>k\<le>Suc n. some_pressed h (t + 10 * k)"
      proof (intro allI impI)
        fix k assume k: "k \<le> Suc n"
        show "some_pressed h (t + 10 * k)"
        proof (cases k)
          case 0
          with pressed show ?thesis by (simp add: some_pressed_def)
        next
          case (Suc j)
          with k n(1) have "some_pressed h (t + 10 + 10 * j)" by simp
          with Suc show ?thesis by (simp add: add.assoc)
        qed
      qed
      moreover from n(2) have "ticks_diff (t + 10 * Suc n) ps > long_press_ms h"
        by (simp add: add.assoc)
      ultimately show ?thesis by blast
    qed
  qed
qed

lemma both_loop_short_returns:
  "\<lbrakk>\<forall>k<n. some_pressed h (t + 10 * k) \<and> ticks_diff (t + 10 * k) ps \<le> long_press_ms h;
    \<not> some_pressed h (t + 10 * n)\<rbrakk>
   \<Longrightarrow> both_loop h ps t = Some (''both_short'', t + 10 * n)"
proof (induction n arbitrary: t)
  case 0
  then show ?case by (subst both_loop.simps) (simp add: some_pressed_def)
next
  case (Suc n)
  from Suc.prems(1) have now: "some_pressed h t" "ticks_diff t ps \<le> long_press_ms h"
    by force+
  have "\<forall>k<n. some_pressed h (t + 10 + 10 * k) \<and> ticks_diff (t + 10 + 10 * k) ps \<le> long_press_ms h"
  proof (intro allI impI)
    fix k assume "k < n"
    then have "Suc k < Suc n" by simp
    from Suc.prems(1)[rule_format, OF this] show
      "some_pressed h (t + 10 + 10 * k) \<and> ticks_diff (t + 10 + 10 * k) ps \<le> long_press_ms h"
      by (simp add: add.assoc)
  qed
  moreover from Suc.prems(2) have "\<not> some_pressed h (t + 10 + 10 * n)" by (simp add: add.assoc)
  ultimately have "both_loop h ps (t + 10) = Some (''both_short'', t + 10 + 10 * n)"
    by (rule Suc.IH)
  with now show ?case by (subst both_loop.simps) (simp add: some_pressed_def add.assoc)
qed

lemma hold_loop_Some:
  "hold_loop held other h ps t = Some r \<Longrightarrow> t \<le> snd r \<and> (fst r \<longrightarrow> pin_value held (snd r))"
proof (induction rule: hold_loop.raw_induct[rotated, consumes 1])
  case (1 hl held other h ps t r)
  show ?case
  proof (cases "pin_value held t")
    case True
    with 1(2) show ?thesis by auto
  next
    case False
    note held_pressed = this
    show ?thesis
    proof (cases "pin_value other t")
      case False
      with held_pressed 1(2) obtain t1 t2 where
        w1: "wait_release other (t + debounce_ms h) = Some t1" and
        w2: "wait_release held t1 = Some t2" and r: "r = (True, t2)"
        by (auto split: option.splits)
      from wait_release_Some[OF w1] wait_release_Some[OF w2] r show ?thesis by simp
    next
      case True
      note other_released = this
      show ?thesis
      proof (cases "ticks_diff t ps > long_press_ms h")
        case True
        with held_pressed other_released 1(2) show ?thesis by auto
      next
        case False
        with held_pressed other_released 1(2) have "hl held other h ps (t + 10) = Some r"
          by auto
        from 1(1)[OF this] show ?thesis by simp
      qed
    qed
  qed
qed

lemma single_branch_Some:
  assumes "single_branch held other combo short h t = Some (g, t')"
  shows "pin_value held t' \<and> t \<le> t' \<and> (g = combo \<or> g = short)"
proof -
  from assms obtain b t1 where hl: "hold_loop held other h t t = Some (b, t1)"
    by (auto simp: single_branch_def split: option.splits)
  from hold_loop_Some[OF hl] have t1: "t \<le> t1" "b \<Longrightarrow> pin_value held t1" by simp_all
  show ?thesis
  proof (cases b)
    case True
    with assms hl have "g = combo" "t' = t1" by (simp_all add: single_branch_def)
    with t1 True show ?thesis by simp
  next
    case False
    with assms hl have w: "wait_release held t1 = Some t'" and "g = short"
      by (auto simp: single_branch_def split: option.splits)
    with wait_release_Some[OF w] t1 show ?thesis by simp
  qed
qed

lemma get_input_cases:
  assumes "get_input h t = Some (g, t')"
  shows "(\<not> pin_value (btn1 h) t \<and> \<not> pin_value (btn2 h) t \<and>
            (\<exists>s. both_loop h (t + debounce_ms h) (t + debounce_ms h) = Some (s, t') \<and> g = Some s))
       \<or> (\<not> pin_value (btn1 h) t \<and> pin_value (btn2 h) t \<and>
            (\<exists>s. single_branch (btn1 h) (btn2 h) ''btn1_hold_btn2_tap'' ''btn1_short'' h
                   (t + debounce_ms h) = Some (s, t') \<and> g = Some s))
       \<or> (pin_value (btn1 h) t \<and> \<not> pin_value (btn2 h) t \<and>
            (\<exists>s. single_branch (btn2 h) (btn1 h) ''btn2_hold_btn1_tap'' ''btn2_short'' h
                   (t + debounce_ms h) = Some (s, t') \<and> g = Some s))
       \<or> (pin_value (btn1 h) t \<and> pin_value (btn2 h) t \<and> g = None \<and> t' = t)"
  using assms by (auto simp: get_input_def Let_def split: if_splits)

lemma init_simps:
  "btn1 (ButtonHandler_init p1 p2) = p1" "btn2 (ButtonHandler_init p1 p2) = p2"
  "long_press_ms (ButtonHandler_init p1 p2) = 800" "debounce_ms (ButtonHandler_init p1 p2) = 50"
  by (simp_all add: ButtonHandler_init_def)

subsection \<open>Claim C1: the both-button hold\<close>

text \<open>
  Claim C1, as the code has it. \<open>get_input\<close> returns \<open>'both_long'\<close> only if both lines
  read pressed at the first sample and, from the end of the 50 ms debounce sleep, at least
  one of the two lines (not necessarily both) reads pressed at each of the 82 polls, 10 ms
  apart, that span more than 800 ms; both lines read released when it returns. And when
  both lines read pressed at the first sample and a poll no later than the 82nd finds both
  lines released, all earlier polls having found a line pressed, \<open>get_input\<close> returns
  \<open>'both_short'\<close> at that poll.
\<close>

theorem get_input_both_hold:
  "(get_input (ButtonHandler_init p1 p2) t0 = Some (Some ''both_long'', t') \<longrightarrow>
      \<not> pin_value p1 t0 \<and> \<not> pin_value p2 t0 \<and>
      (\<forall>k\<le>81. some_pressed (ButtonHandler_init p1 p2) (t0 + 50 + 10 * k)) \<and>
      pin_value p1 t' \<and> pin_value p2 t') \<and>
   (\<not> pin_value p1 t0 \<and> \<not> pin_value p2 t0 \<and> n \<le> 81 \<and>
      (\<forall>k<n. some_pressed (ButtonHandler_init p1 p2) (t0 + 50 + 10 * k)) \<and>
      \<not> some_pressed (ButtonHandler_init p1 p2) (t0 + 50 + 10 * n) \<longrightarrow>
      get_input (ButtonHandler_init p1 p2) t0 = Some (Some ''both_short'', t0 + 50 + 10 * n))"
proof (intro conjI impI)
  let ?h = "ButtonHandler_init p1 p2"
  assume g: "get_input ?h t0 = Some (Some ''both_long'', t')"
  from get_input_cases[OF g] have
    both: "\<not> pin_value p1 t0 \<and> \<not> pin_value p2 t0" and
    bl: "both_loop ?h (t0 + 50) (t0 + 50) = Some (''both_long'', t')"
    by (auto simp: init_simps dest: single_branch_Some)
  from both show "\<not> pin_value p1 t0" "\<not> pin_value p2 t0" by simp_all
  from both_loop_Some[OF bl] show "pin_value p1 t'" "pin_value p2 t'"
    by (simp_all add: init_simps)
  from both_loop_long[OF bl] obtain m where
    m: "\<forall>k\<le>m. some_pressed ?h (t0 + 50 + 10 * k)"
       "ticks_diff (t0 + 50 + 10 * m) (t0 + 50) > 800"
    by (auto simp: init_simps)
  from m(2) have "81 \<le> m" by (simp add: ticks_diff_def)
  with m(1) show "\<forall>k\<le>81. some_pressed ?h (t0 + 50 + 10 * k)" by simp
next
  let ?h = "ButtonHandler_init p1 p2"
  assume a: "\<not> pin_value p1 t0 \<and> \<not> pin_value p2 t0 \<and> n \<le> 81 \<and>
      (\<forall>k<n. some_pressed ?h (t0 + 50 + 10 * k)) \<and> \<not> some_pressed ?h (t0 + 50 + 10 * n)"
  then have "\<forall>k<n. some_pressed ?h (t0 + 50 + 10 * k) \<and>
               ticks_diff (t0 + 50 + 10 * k) (t0 + 50) \<le> long_press_ms ?h"
    by (auto simp: ticks_diff_def init_simps)
  moreover from a have "\<not> some_pressed ?h (t0 + 50 + 10 * n)" by simp
  ultimately have "both_loop ?h (t0 + 50) (t0 + 50) = Some (''both_short'', t0 + 50 + 10 * n)"
    by (rule both_loop_short_returns)
  with a show "get_input ?h t0 = Some (Some ''both_short'', t0 + 50 + 10 * n)"
    by (simp add: get_input_def init_simps)
qed

text \<open>
  Claim C1 as stated fails: line 1 is released after 100 ms, well before the 800 ms
  threshold, while line 2 stays pressed for a second. The loop runs while either line
  reads pressed, so the decoder returns \<open>'both_long'\<close>, not \<open>'both_short'\<close>.
\<close>

theorem get_input_both_hold_counterexample:
  "get_input (ButtonHandler_init (pressed_during 0 100) (pressed_during 0 1000)) 0
     = Some (Some ''both_long'', 1000) \<and>
   pin_value (pressed_during 0 100) 100"
  by code_simp

text \<open>
  The theorem at concrete traces: both lines held for a second give \<open>'both_long'\<close>, with
  a line pressed at the 82nd poll; both lines pressed and released within 300 ms give
  \<open>'both_short'\<close>.
\<close>

theorem get_input_both_hold_witness:
  "get_input (ButtonHandler_init (pressed_during 0 1000) (pressed_during 0 1000)) 0
     = Some (Some ''both_long'', 1000) \<and>
   some_pressed (ButtonHandler_init (pressed_during 0 1000) (pressed_during 0 1000)) 860 \<and>
   get_input (ButtonHandler_init (pressed_during 0 100) (pressed_during 0 300)) 0
     = Some (Some ''both_short'', 300)"
proof -
  let ?p = "pressed_during 0 1000"
  have long: "get_input (ButtonHandler_init ?p ?p) 0 = Some (Some ''both_long'', 1000)"
    by code_simp
  from get_input_both_hold[of ?p ?p 0 1000, THEN conjunct1, rule_format, OF long]
  have "\<forall>k\<le>81. some_pressed (ButtonHandler_init ?p ?p) (0 + 50 + 10 * k)" by simp
  then have "some_pressed (ButtonHandler_init ?p ?p) (0 + 50 + 10 * 81)" by blast
  then have polled: "some_pressed (ButtonHandler_init ?p ?p) 860" by simp
  let ?a = "pressed_during 0 100" and ?b = "pressed_during 0 300"
  have "\<not> pin_value ?a 0 \<and> \<not> pin_value ?b 0 \<and> (25::nat) \<le> 81 \<and>
      (\<forall>k<25. some_pressed (ButtonHandler_init ?a ?b) (0 + 50 + 10 * k)) \<and>
      \<not> some_pressed (ButtonHandler_init ?a ?b) (0 + 50 + 10 * 25)"
    by (auto simp: some_pressed_def pin_value_def pressed_during_def init_simps)
  from get_input_both_hold[of ?a ?b 0 _ 25, THEN conjunct2, rule_format, OF this]
  have "get_input (ButtonHandler_init ?a ?b) 0 = Some (Some ''both_short'', 300)" by simp
  with long polled show ?thesis by simp
qed

subsection \<open>Claim C3: the debounce sleep\<close>

text \<open>
  Claim C3, as the code has it. When a line reads pressed at the first sample,
  \<open>get_input\<close> sleeps the 50 ms debounce interval and then takes the branch chosen by the
  first sample: both lines pressed gives a both-button gesture, only line 1 a line-1
  gesture, only line 2 a line-2 gesture, and none of them returns before the 50 ms have
  passed; with no line pressed it returns \<open>None\<close> at once. The lines are not sampled again
  to choose the branch, and a press that is gone after the sleep is not rejected: it is
  reported as a tap as soon as the sleep ends.
\<close>

theorem get_input_debounce:
  "(get_input (ButtonHandler_init p1 p2) t0 = Some (g, t') \<longrightarrow>
      (if \<not> pin_value p1 t0 \<and> \<not> pin_value p2 t0
       then (g = Some ''both_short'' \<or> g = Some ''both_long'') \<and> t0 + 50 \<le> t'
       else if \<not> pin_value p1 t0
       then (g = Some ''btn1_short'' \<or> g = Some ''btn1_hold_btn2_tap'') \<and> t0 + 50 \<le> t'
       else if \<not> pin_value p2 t0
       then (g = Some ''btn2_short'' \<or> g = Some ''btn2_hold_btn1_tap'') \<and> t0 + 50 \<le> t'
       else g = None \<and> t' = t0)) \<and>
   (\<not> pin_value p1 t0 \<and> \<not> pin_value p2 t0 \<and> pin_value p1 (t0 + 50) \<and> pin_value p2 (t0 + 50) \<longrightarrow>
      get_input (ButtonHandler_init p1 p2) t0 = Some (Some ''both_short'', t0 + 50)) \<and>
   (\<not> pin_value p1 t0 \<and> pin_value p2 t0 \<and> pin_value p1 (t0 + 50) \<longrightarrow>
      get_input (ButtonHandler_init p1 p2) t0 = Some (Some ''btn1_short'', t0 + 50)) \<and>
   (pin_value p1 t0 \<and> \<not> pin_value p2 t0 \<and> pin_value p2 (t0 + 50) \<longrightarrow>
      get_input (ButtonHandler_init p1 p2) t0 = Some (Some ''btn2_short'', t0 + 50))"
proof (intro conjI impI)
  let ?h = "ButtonHandler_init p1 p2"
  assume g: "get_input ?h t0 = Some (g, t')"
  from get_input_cases[OF g] consider
    (both) s where "\<not> pin_value p1 t0" "\<not> pin_value p2 t0"
      "both_loop ?h (t0 + 50) (t0 + 50) = Some (s, t')" "g = Some s"
  | (one) s where "\<not> pin_value p1 t0" "pin_value p2 t0"
      "single_branch p1 p2 ''btn1_hold_btn2_tap'' ''btn1_short'' ?h (t0 + 50) = Some (s, t')"
      "g = Some s"
  | (two) s where "pin_value p1 t0" "\<not> pin_value p2 t0"
      "single_branch p2 p1 ''btn2_hold_btn1_tap'' ''btn2_short'' ?h (t0 + 50) = Some (s, t')"
      "g = Some s"
  | (none) "pin_value p1 t0" "pin_value p2 t0" "g = None" "t' = t0"
    by (auto simp: init_simps)
  then show "if \<not> pin_value p1 t0 \<and> \<not> pin_value p2 t0
       then (g = Some ''both_short'' \<or> g = Some ''both_long'') \<and> t0 + 50 \<le> t'
       else if \<not> pin_value p1 t0
       then (g = Some ''btn1_short'' \<or> g = Some ''btn1_hold_btn2_tap'') \<and> t0 + 50 \<le> t'
       else if \<not> pin_value p2 t0
       then (g = Some ''btn2_short'' \<or> g = Some ''btn2_hold_btn1_tap'') \<and> t0 + 50 \<le> t'
       else g = None \<and> t' = t0"
  proof cases
    case both
    from both_loop_Some[OF both(3)] both(1,2,4) show ?thesis by simp
  next
    case one
    from single_branch_Some[OF one(3)] one(1,2,4) show ?thesis by auto
  next
    case two
    from single_branch_Some[OF two(3)] two(1,2,4) show ?thesis by auto
  next
    case none
    then show ?thesis by simp
  qed
next
  assume "\<not> pin_value p1 t0 \<and> \<not> pin_value p2 t0 \<and> pin_value p1 (t0 + 50) \<and> pin_value p2 (t0 + 50)"
  then show "get_input (ButtonHandler_init p1 p2) t0 = Some (Some ''both_short'', t0 + 50)"
    by (simp add: get_input_def init_simps both_loop.simps)
next
  assume "\<not> pin_value p1 t0 \<and> pin_value p2 t0 \<and> pin_value p1 (t0 + 50)"
  then show "get_input (ButtonHandler_init p1 p2) t0 = Some (Some ''btn1_short'', t0 + 50)"
    by (simp add: get_input_def init_simps single_branch_def hold_loop.simps wait_release.simps)
next
  assume "pin_value p1 t0 \<and> \<not> pin_value p2 t0 \<and> pin_value p2 (t0 + 50)"
  then show "get_input (ButtonHandler_init p1 p2) t0 = Some (Some ''btn2_short'', t0 + 50)"
    by (simp add: get_input_def init_simps single_branch_def hold_loop.simps wait_release.simps)
qed

text \<open>
  Claim C3 as stated fails. Line 1 is held for 100 ms and line 2 bounces low for the first
  10 ms only: after the debounce sleep line 2 reads released and line 1 pressed, so a
  re-sample would choose the line-1 branch, but the decoder returns the both-button
  gesture \<open>'both_short'\<close>. And a 10 ms glitch on line 1 alone, gone when the sleep ends, is
  reported as \<open>'btn1_short'\<close> rather than rejected.
\<close>

theorem get_input_debounce_counterexample:
  "get_input (ButtonHandler_init (pressed_during 0 100) (pressed_during 0 10)) 0
     = Some (Some ''both_short'', 100) \<and>
   \<not> pin_value (pressed_during 0 100) 50 \<and>
   pin_value (pressed_during 0 10) 50 \<and>
   get_input (ButtonHandler_init (pressed_during 0 10) (pressed_during 0 0)) 0
     = Some (Some ''btn1_short'', 50)"
  by code_simp

text \<open>
  The theorem at concrete traces: line 1 held for 300 ms is classified by its first
  sample and returns no earlier than 50 ms; a 10 ms glitch on line 1, on line 2 or on
  both lines is reported at 50 ms.
\<close>

theorem get_input_debounce_witness:
  "get_input (ButtonHandler_init (pressed_during 0 300) (pressed_during 0 0)) 0
     = Some (Some ''btn1_short'', 300) \<and>
   \<not> pin_value (pressed_during 0 300) 0 \<and> pin_value (pressed_during 0 0) 0 \<and>
   (0::nat) + 50 \<le> 300 \<and>
   \<not> pin_value (pressed_during 0 10) 0 \<and> pin_value (pressed_during 0 10) (0 + 50) \<and>
   get_input (ButtonHandler_init (pressed_during 0 10) (pressed_during 0 0)) 0
     = Some (Some ''btn1_short'', 0 + 50) \<and>
   get_input (ButtonHandler_init (pressed_during 0 0) (pressed_during 0 10)) 0
     = Some (Some ''btn2_short'', 0 + 50) \<and>
   get_input (ButtonHandler_init (pressed_during 0 10) (pressed_during 0 10)) 0
     = Some (Some ''both_short'', 0 + 50)"
proof -
  let ?a = "pressed_during 0 300" and ?n = "pressed_during 0 0" and ?g = "pressed_during 0 10"
  have samples: "\<not> pin_value ?a 0" "pin_value ?n 0" "\<not> pin_value ?g 0" "pin_value ?g (0 + 50)"
    by (simp_all add: pin_value_def pressed_during_def)
  have run: "get_input (ButtonHandler_init ?a ?n) 0 = Some (Some ''btn1_short'', 300)"
    by code_simp
  from get_input_debounce[of ?a ?n 0 "Some ''btn1_short''" 300, THEN conjunct1, rule_format, OF run]
    samples
  have late: "(0::nat) + 50 \<le> 300" by simp
  from samples have "\<not> pin_value ?g 0 \<and> pin_value ?n 0 \<and> pin_value ?g (0 + 50)" by simp
  from get_input_debounce[of ?g ?n 0, THEN conjunct2, THEN conjunct2, THEN conjunct1,
      rule_format, OF this]
  have one: "get_input (ButtonHandler_init ?g ?n) 0 = Some (Some ''btn1_short'', 0 + 50)" .
  from samples have "pin_value ?n 0 \<and> \<not> pin_value ?g 0 \<and> pin_value ?g (0 + 50)" by simp
  from get_input_debounce[of ?n ?g 0, THEN conjunct2, THEN conjunct2, THEN conjunct2,
      rule_format, OF this]
  have two: "get_input (ButtonHandler_init ?n ?g) 0 = Some (Some ''btn2_short'', 0 + 50)" .
  from samples have "\<not> pin_value ?g 0 \<and> \<not> pin_value ?g 0 \<and>
      pin_value ?g (0 + 50) \<and> pin_value ?g (0 + 50)" by simp
  from get_input_debounce[of ?g ?g 0, THEN conjunct2, THEN conjunct1, rule_format, OF this]
  have both: "get_input (ButtonHandler_init ?g ?g) 0 = Some (Some ''both_short'', 0 + 50)" .
  from run samples late one two both show ?thesis by simp
qed

subsection \<open>Claim C4: release before a gesture is reported\<close>

text \<open>
  Claim C4, as the code has it. Every gesture is returned at a moment when the line or
  lines of its own branch read released: both lines for \<open>'both_short'\<close> and
  \<open>'both_long'\<close>, line 1 for \<open>'btn1_short'\<close> and \<open>'btn1_hold_btn2_tap'\<close>, line 2 for
  \<open>'btn2_short'\<close> and \<open>'btn2_hold_btn1_tap'\<close>. This covers the timeout \<open>break\<close> of the
  hold-detection loop, after which the held line's release is still waited for. The other
  line is not waited for in the single-button branches.
\<close>

theorem get_input_release:
  "get_input (ButtonHandler_init p1 p2) t0 = Some (Some g, t') \<Longrightarrow>
     (g = ''both_short'' \<or> g = ''both_long'' \<or> g = ''btn1_short'' \<or> g = ''btn1_hold_btn2_tap'' \<or>
      g = ''btn2_short'' \<or> g = ''btn2_hold_btn1_tap'') \<and>
     (g = ''both_short'' \<or> g = ''both_long'' \<longrightarrow> pin_value p1 t' \<and> pin_value p2 t') \<and>
     (g = ''btn1_short'' \<or> g = ''btn1_hold_btn2_tap'' \<longrightarrow> pin_value p1 t') \<and>
     (g = ''btn2_short'' \<or> g = ''btn2_hold_btn1_tap'' \<longrightarrow> pin_value p2 t')"
proof -
  let ?h = "ButtonHandler_init p1 p2"
  assume g: "get_input ?h t0 = Some (Some g, t')"
  from get_input_cases[OF g] consider
    (both) "both_loop ?h (t0 + 50) (t0 + 50) = Some (g, t')"
  | (one) "single_branch p1 p2 ''btn1_hold_btn2_tap'' ''btn1_short'' ?h (t0 + 50) = Some (g, t')"
  | (two) "single_branch p2 p1 ''btn2_hold_btn1_tap'' ''btn2_short'' ?h (t0 + 50) = Some (g, t')"
    by (auto simp: init_simps)
  then show ?thesis
  proof cases
    case both
    from both_loop_Some[OF both] show ?thesis by (auto simp: init_simps)
  next
    case one
    from single_branch_Some[OF one] show ?thesis by auto
  next
    case two
    from single_branch_Some[OF two] show ?thesis by auto
  qed
qed

text \<open>
  Claim C4 as stated fails, and it fails on the timeout branch. Line 1 is held for a
  second, so the hold-detection loop is left through its \<open>break\<close>; line 2 is pressed
  from 900 ms to 1200 ms, while only line 1 is waited for. \<open>'btn1_short'\<close> is returned
  at 1000 ms while line 2 reads pressed; the next call, after the 50 ms sleep of the main
  loop, returns \<open>'btn2_short'\<close> at 1200 ms; and at every millisecond from the first
  return up to the second a line reads pressed.
\<close>

theorem get_input_release_counterexample:
  "get_input (ButtonHandler_init (pressed_during 0 1000) (pressed_during 900 1200)) 0
     = Some (Some ''btn1_short'', 1000) \<and>
   \<not> pin_value (pressed_during 900 1200) 1000 \<and>
   get_input (ButtonHandler_init (pressed_during 0 1000) (pressed_during 900 1200)) 1050
     = Some (Some ''btn2_short'', 1200) \<and>
   list_all (some_pressed (ButtonHandler_init (pressed_during 0 1000) (pressed_during 900 1200)))
     [1000..<1200]"
proof -
  let ?h = "ButtonHandler_init (pressed_during 0 1000) (pressed_during 900 1200)"
  have first: "get_input ?h 0 = Some (Some ''btn1_short'', 1000)"
    by code_simp
  have still: "\<not> pin_value (pressed_during 900 1200) 1000"
    by (simp add: pin_value_def pressed_during_def)
  have second: "get_input ?h 1050 = Some (Some ''btn2_short'', 1200)"
    by code_simp
  have between: "list_all (some_pressed ?h) [1000..<1200]"
    by (simp add: list_all_iff some_pressed_def pin_value_def pressed_during_def
        ButtonHandler_init_def)
  from first still second between show ?thesis by (simp only: simp_thms)
qed

text \<open>
  The theorem at a concrete trace that takes the timeout \<open>break\<close>: line 1 held for a
  second gives \<open>'btn1_short'\<close> at its release.
\<close>

theorem get_input_release_witness:
  "get_input (ButtonHandler_init (pressed_during 0 1000) (pressed_during 0 0)) 0
     = Some (Some ''btn1_short'', 1000) \<and>
   pin_value (pressed_during 0 1000) 1000"
proof -
  let ?a = "pressed_during 0 1000" and ?n = "pressed_during 0 0"
  have run: "get_input (ButtonHandler_init ?a ?n) 0 = Some (Some ''btn1_short'', 1000)"
    by code_simp
  from get_input_release[OF run] have "pin_value ?a 1000" by simp
  with run show ?thesis by simp
qed

section \<open>Properties of the lists\<close>

subsection \<open>Claim C5: advancing the selection\<close>

lemma next_item_items:
  "items (next_item fb) = items fb"
  by (simp add: next_item_def Let_def)

lemma next_item_selected_index:
  "items fb \<noteq> [] \<Longrightarrow>
     selected_index (next_item fb) = (selected_index fb + 1) mod int (length (items fb))"
  by (simp add: next_item_def Let_def)

lemma funpow_next_item_items:
  "items ((next_item ^^ k) fb) = items fb"
  by (induction k) (simp_all add: next_item_items)

lemma funpow_next_item_selected_index:
  assumes "items fb \<noteq> []" "0 \<le> selected_index fb" "selected_index fb < int (length (items fb))"
  shows "selected_index ((next_item ^^ k) fb) = (selected_index fb + int k) mod int (length (items fb))"
proof (induction k)
  case 0
  from assms show ?case by simp
next
  case (Suc k)
  let ?fb = "(next_item ^^ k) fb"
  have ne: "items ?fb \<noteq> []" using assms(1) by (simp add: funpow_next_item_items)
  have "selected_index ((next_item ^^ Suc k) fb) = (selected_index ?fb + 1) mod int (length (items ?fb))"
    using next_item_selected_index[OF ne] by simp
  also have "\<dots> = ((selected_index fb + int k) mod int (length (items fb)) + 1) mod int (length (items fb))"
    by (simp add: Suc.IH funpow_next_item_items)
  also have "\<dots> = (selected_index fb + int (Suc k)) mod int (length (items fb))"
    by (simp add: mod_simps ac_simps)
  finally show ?case .
qed

lemma next_item_scroll:
  assumes "items fb \<noteq> []"
  shows "scroll_offset (next_item fb) \<le> selected_index (next_item fb) \<and>
         selected_index (next_item fb) < scroll_offset (next_item fb) + max_lines"
  using assms by (simp add: next_item_def Let_def max_lines_def)

lemma menu_next_item_Some:
  "menu_items m \<noteq> [] \<Longrightarrow>
     menu_next_item m =
       Some (m\<lparr>menu_selected_index := (menu_selected_index m + 1) mod int (length (menu_items m))\<rparr>)"
  by (simp add: menu_next_item_def)

lemma repeat_menu_next_item:
  assumes "menu_items m \<noteq> []" "0 \<le> menu_selected_index m"
    "menu_selected_index m < int (length (menu_items m))"
  shows "repeat_calls k menu_next_item m =
           Some (m\<lparr>menu_selected_index := (menu_selected_index m + int k) mod int (length (menu_items m))\<rparr>)"
  using assms
proof (induction k arbitrary: m)
  case 0
  then show ?case by simp
next
  case (Suc k)
  let ?n = "int (length (menu_items m))"
  let ?m = "m\<lparr>menu_selected_index := (menu_selected_index m + 1) mod ?n\<rparr>"
  from Suc.prems have n: "0 < ?n" by simp
  have "repeat_calls (Suc k) menu_next_item m = repeat_calls k menu_next_item ?m"
    using Suc.prems(1) by (simp add: menu_next_item_Some)
  also have "\<dots> = Some (?m\<lparr>menu_selected_index := (menu_selected_index ?m + int k) mod int (length (menu_items ?m))\<rparr>)"
    using Suc.prems(1) n by (intro Suc.IH) simp_all
  also have "\<dots> = Some (m\<lparr>menu_selected_index := (menu_selected_index m + int (Suc k)) mod ?n\<rparr>)"
    by (simp add: mod_simps ac_simps)
  finally show ?case .
qed

text \<open>
  Claim C5. On a browser with \<open>N \<ge> 1\<close> items and a selection inside the list, \<open>N\<close> calls
  of \<open>FileBrowser.next_item\<close> bring \<open>selected_index\<close> back to its starting value, and
  after any single call on a non-empty list
  \<open>scroll_offset \<le> selected_index < scroll_offset + max_lines\<close>. On a menu with
  \<open>N \<ge> 1\<close> items and a selection inside the list, \<open>N\<close> calls of \<open>MenuSystem.next_item\<close>
  all return and bring \<open>selected_index\<close> back; the menu is drawn with scroll offset 0, and
  after any single call on the four items that \<open>MenuSystem.__init__\<close> installs the
  selection lies inside the \<open>max_lines\<close> visible lines.
\<close>

theorem next_item_cyclic:
  "(items fb \<noteq> [] \<and> 0 \<le> selected_index fb \<and> selected_index fb < int (length (items fb)) \<longrightarrow>
      selected_index ((next_item ^^ length (items fb)) fb) = selected_index fb) \<and>
   (items fb \<noteq> [] \<longrightarrow>
      scroll_offset (next_item fb) \<le> selected_index (next_item fb) \<and>
      selected_index (next_item fb) < scroll_offset (next_item fb) + max_lines) \<and>
   (menu_items m \<noteq> [] \<and> 0 \<le> menu_selected_index m \<and>
    menu_selected_index m < int (length (menu_items m)) \<longrightarrow>
      repeat_calls (length (menu_items m)) menu_next_item m = Some m) \<and>
   (menu_items m = menu_items MenuSystem_init \<longrightarrow>
      (\<exists>m'. menu_next_item m = Some m' \<and> 0 \<le> menu_selected_index m' \<and>
            menu_selected_index m' < 0 + max_lines))"
proof (intro conjI impI)
  assume a: "items fb \<noteq> [] \<and> 0 \<le> selected_index fb \<and> selected_index fb < int (length (items fb))"
  then have "selected_index ((next_item ^^ length (items fb)) fb) =
               (selected_index fb + int (length (items fb))) mod int (length (items fb))"
    by (intro funpow_next_item_selected_index) simp_all
  with a show "selected_index ((next_item ^^ length (items fb)) fb) = selected_index fb"
    by simp
next
  assume "items fb \<noteq> []"
  from next_item_scroll[OF this]
  show "scroll_offset (next_item fb) \<le> selected_index (next_item fb)"
    and "selected_index (next_item fb) < scroll_offset (next_item fb) + max_lines"
    by simp_all
next
  assume a: "menu_items m \<noteq> [] \<and> 0 \<le> menu_selected_index m \<and>
    menu_selected_index m < int (length (menu_items m))"
  then have "repeat_calls (length (menu_items m)) menu_next_item m =
    Some (m\<lparr>menu_selected_index :=
               (menu_selected_index m + int (length (menu_items m))) mod int (length (menu_items m))\<rparr>)"
    by (intro repeat_menu_next_item) simp_all
  with a show "repeat_calls (length (menu_items m)) menu_next_item m = Some m" by simp
next
  assume a: "menu_items m = menu_items MenuSystem_init"
  then have len: "length (menu_items m) = 4" and ne: "menu_items m \<noteq> []"
    by (simp_all add: MenuSystem_init_def)
  let ?m = "m\<lparr>menu_selected_index := (menu_selected_index m + 1) mod 4\<rparr>"
  have "menu_next_item m = Some ?m" using menu_next_item_Some[OF ne] len by simp
  moreover have "0 \<le> (menu_selected_index m + 1) mod 4"
    by simp
  moreover have "(menu_selected_index m + 1) mod 4 < 4"
    by simp
  then have "(menu_selected_index m + 1) mod 4 < 0 + max_lines"
    by (simp add: max_lines_def)
  ultimately have "menu_next_item m = Some ?m \<and> 0 \<le> menu_selected_index ?m \<and>
      menu_selected_index ?m < 0 + max_lines"
    by simp
  then show "\<exists>m'. menu_next_item m = Some m' \<and> 0 \<le> menu_selected_index m' \<and>
            menu_selected_index m' < 0 + max_lines" by blast
qed

text \<open>
  The theorem at concrete states: a browser with seven files, the selection on the last
  one and the window scrolled to it, and the menu as \<open>MenuSystem.__init__\<close> builds it.
\<close>

theorem next_item_cyclic_witness:
  "selected_index ((next_item ^^ 7)
     \<lparr>current_path = ''/'', items = replicate 7 \<lparr>name = ''f'', type = ''file'', path = ''/f''\<rparr>,
      selected_index = 6, scroll_offset = 1\<rparr>) = 6 \<and>
   scroll_offset (next_item
     \<lparr>current_path = ''/'', items = replicate 7 \<lparr>name = ''f'', type = ''file'', path = ''/f''\<rparr>,
      selected_index = 6, scroll_offset = 1\<rparr>) = 0 \<and>
   selected_index (next_item
     \<lparr>current_path = ''/'', items = replicate 7 \<lparr>name = ''f'', type = ''file'', path = ''/f''\<rparr>,
      selected_index = 6, scroll_offset = 1\<rparr>) = 0 \<and>
   (0::int) < 0 + max_lines \<and>
   repeat_calls 4 menu_next_item MenuSystem_init = Some MenuSystem_init \<and>
   (\<exists>m'. menu_next_item MenuSystem_init = Some m' \<and> 0 \<le> menu_selected_index m' \<and>
         menu_selected_index m' < 0 + max_lines)"
proof -
  let ?fb = "\<lparr>current_path = ''/'', items = replicate 7 \<lparr>name = ''f'', type = ''file'', path = ''/f''\<rparr>,
      selected_index = 6, scroll_offset = 1\<rparr>"
  have fb: "items ?fb \<noteq> [] \<and> 0 \<le> selected_index ?fb \<and> selected_index ?fb < int (length (items ?fb))"
    by simp
  from next_item_cyclic[of ?fb MenuSystem_init, THEN conjunct1, rule_format, OF fb]
  have cyc: "selected_index ((next_item ^^ 7) ?fb) = 6" by simp
  have one: "scroll_offset (next_item ?fb) = 0" "selected_index (next_item ?fb) = 0"
    by (simp_all add: next_item_def Let_def max_lines_def)
  have "items ?fb \<noteq> []" by simp
  from next_item_cyclic[of ?fb MenuSystem_init, THEN conjunct2, THEN conjunct1, rule_format, OF this]
  have window: "(0::int) < 0 + max_lines" by (simp add: one)
  from next_item_cyclic[of ?fb MenuSystem_init, THEN conjunct2, THEN conjunct2, THEN conjunct2,
      rule_format, OF refl]
  have shown: "\<exists>m'. menu_next_item MenuSystem_init = Some m' \<and> 0 \<le> menu_selected_index m' \<and>
         menu_selected_index m' < 0 + max_lines" .
  have m: "menu_items MenuSystem_init \<noteq> [] \<and> 0 \<le> menu_selected_index MenuSystem_init \<and>
    menu_selected_index MenuSystem_init < int (length (menu_items MenuSystem_init))"
    by (simp add: MenuSystem_init_def)
  from next_item_cyclic[of ?fb MenuSystem_init, THEN conjunct2, THEN conjunct2, THEN conjunct1,
      rule_format, OF m]
  have "repeat_calls (length (menu_items MenuSystem_init)) menu_next_item MenuSystem_init
          = Some MenuSystem_init" .
  moreover have "length (menu_items MenuSystem_init) = 4"
    by (simp add: MenuSystem_init_def)
  ultimately have "repeat_calls 4 menu_next_item MenuSystem_init = Some MenuSystem_init"
    by (simp only:)
  with cyc one window shown show ?thesis by simp
qed

section \<open>Properties of the file browser\<close>

subsection \<open>The listing loop\<close>

lemma scan_entries_item:
  "it \<in> set (scan_entries fs cp entries) \<Longrightarrow>
     name it \<noteq> ''main.py'' \<and> name it \<in> set entries \<and>
     (type it = ''dir'' \<or> type it = ''file'') \<and>
     path it = cp @ (if cp = ''/'' then [] else ''/'') @ name it"
proof (induction entries)
  case Nil
  then show ?case by simp
next
  case (Cons entry entries)
  show ?case
  proof (cases "entry = ''main.py''")
    case True
    with Cons show ?thesis by simp
  next
    case False
    let ?full = "cp @ (if cp = ''/'' then [] else ''/'') @ entry"
    from Cons.prems False consider
      (here) "it = (case fs ?full of
                      Inr _ \<Rightarrow> \<lparr>name = entry, type = ''dir'', path = ?full\<rparr>
                    | Inl _ \<Rightarrow> \<lparr>name = entry, type = ''file'', path = ?full\<rparr>)"
    | (later) "it \<in> set (scan_entries fs cp entries)"
      by (auto simp: Let_def)
    then show ?thesis
    proof cases
      case here
      with False show ?thesis by (cases "fs ?full") simp_all
    next
      case later
      from Cons.IH[OF later] show ?thesis by simp
    qed
  qed
qed

lemma refresh_items_current_path:
  "current_path (refresh_items fs fb) = current_path fb"
  by (simp add: refresh_items_def Let_def)

lemma refresh_items_listed:
  assumes "fs (current_path fb) = Inr entries"
  shows "items (refresh_items fs fb) =
           (if current_path fb \<noteq> ''/''
            then \<lparr>name = ''..'', type = ''parent'', path = get_parent_path fb\<rparr> #
                 scan_entries fs (current_path fb) (sort entries)
            else scan_entries fs (current_path fb) (sort entries))"
  using assms by (simp add: refresh_items_def Let_def)

lemma refresh_items_error:
  assumes "fs (current_path fb) = Inl e"
  shows "items (refresh_items fs fb) = [\<lparr>name = ''Error: '' @ e, type = ''error'', path = []\<rparr>]"
  using assms by (simp add: refresh_items_def Let_def)

subsection \<open>Claim C6: the parent entry and the launcher\<close>

text \<open>
  Claim C6, as the code has it. After \<open>refresh_items\<close>: when the listing of
  \<open>current_path\<close> succeeds, the items contain a \<open>parent\<close> entry if and only if
  \<open>current_path\<close> is not \<open>/\<close>; when the listing raises, the items are the single \<open>error\<close>
  entry, with no \<open>parent\<close> entry whatever the path; in both cases no item is named
  \<open>main.py\<close>, and \<open>current_path\<close> is unchanged.
\<close>

theorem refresh_items_parent:
  "(fs (current_path fb) = Inr entries \<longrightarrow>
      ((\<exists>it \<in> set (items (refresh_items fs fb)). type it = ''parent'') \<longleftrightarrow>
       current_path fb \<noteq> ''/'')) \<and>
   (fs (current_path fb) = Inl e \<longrightarrow>
      items (refresh_items fs fb) = [\<lparr>name = ''Error: '' @ e, type = ''error'', path = []\<rparr>]) \<and>
   (\<forall>it \<in> set (items (refresh_items fs fb)). name it \<noteq> ''main.py'') \<and>
   current_path (refresh_items fs fb) = current_path fb"
proof (intro conjI impI ballI)
  assume ok: "fs (current_path fb) = Inr entries"
  have no_parent: "\<not> (\<exists>it \<in> set (scan_entries fs (current_path fb) (sort entries)). type it = ''parent'')"
  proof
    assume "\<exists>it \<in> set (scan_entries fs (current_path fb) (sort entries)). type it = ''parent''"
    then obtain it where it: "it \<in> set (scan_entries fs (current_path fb) (sort entries))"
      and p: "type it = ''parent''" by blast
    from scan_entries_item[OF it] have "type it = ''dir'' \<or> type it = ''file''" by simp
    with p show False by simp
  qed
  show "(\<exists>it \<in> set (items (refresh_items fs fb)). type it = ''parent'') \<longleftrightarrow>
       current_path fb \<noteq> ''/''"
  proof (cases "current_path fb = ''/''")
    case True
    with no_parent show ?thesis by (simp add: refresh_items_listed[of fs fb entries, OF ok])
  next
    case False
    then show ?thesis by (simp add: refresh_items_listed[of fs fb entries, OF ok])
  qed
next
  assume "fs (current_path fb) = Inl e"
  then show "items (refresh_items fs fb) = [\<lparr>name = ''Error: '' @ e, type = ''error'', path = []\<rparr>]"
    by (simp add: refresh_items_def Let_def)
next
  fix it assume it: "it \<in> set (items (refresh_items fs fb))"
  show "name it \<noteq> ''main.py''"
  proof (cases "fs (current_path fb)")
    case (Inl e)
    from it show ?thesis by (simp add: refresh_items_error[of fs fb e, OF Inl])
  next
    case (Inr entries)
    from it consider "it = \<lparr>name = ''..'', type = ''parent'', path = get_parent_path fb\<rparr>"
      | "it \<in> set (scan_entries fs (current_path fb) (sort entries))"
      by (auto simp: refresh_items_listed[of fs fb entries, OF Inr] split: if_splits)
    then show ?thesis
    proof cases
      case 1
      then show ?thesis by simp
    next
      case 2
      from scan_entries_item[OF this] show ?thesis by simp
    qed
  qed
next
  show "current_path (refresh_items fs fb) = current_path fb"
    by (rule refresh_items_current_path)
qed

text \<open>
  Claim C6 as stated fails in the listing-error case: the browser is in \<open>/tools\<close>, not
  the root, the listing raises, and the items are the error entry alone, without a
  \<open>parent\<close> entry.
\<close>

theorem refresh_items_parent_counterexample:
  "items (refresh_items failed_fs
     \<lparr>current_path = ''/tools'', items = [], selected_index = 0, scroll_offset = 0\<rparr>)
     = [\<lparr>name = ''Error: [Errno 5] EIO'', type = ''error'', path = []\<rparr>] \<and>
   current_path (refresh_items failed_fs
     \<lparr>current_path = ''/tools'', items = [], selected_index = 0, scroll_offset = 0\<rparr>)
     = ''/tools''"
  by (simp add: refresh_items_def failed_fs_def)

text \<open>
  The theorem at concrete states: the listing of \<open>/tools\<close> in the sample file system has
  a \<open>parent\<close> entry, and the failed listing is the error entry.
\<close>

theorem refresh_items_parent_witness:
  "sample_fs ''/tools'' = Inr [''blink.py''] \<and>
   list_ex (\<lambda>it. type it = ''parent'')
     (items (refresh_items sample_fs
        \<lparr>current_path = ''/tools'', items = [], selected_index = 0, scroll_offset = 0\<rparr>)) \<and>
   failed_fs ''/tools'' = Inl ''[Errno 5] EIO'' \<and>
   items (refresh_items failed_fs
     \<lparr>current_path = ''/tools'', items = [], selected_index = 0, scroll_offset = 0\<rparr>)
     = [\<lparr>name = ''Error: [Errno 5] EIO'', type = ''error'', path = []\<rparr>] \<and>
   list_all (\<lambda>it. name it \<noteq> ''main.py'') (items (FileBrowser_init sample_fs))"
proof -
  let ?fb = "\<lparr>current_path = ''/tools'', items = [], selected_index = 0, scroll_offset = 0\<rparr>"
  have ok: "sample_fs (current_path ?fb) = Inr [''blink.py'']"
    by (simp add: sample_fs_def)
  from refresh_items_parent[of sample_fs ?fb "[''blink.py'']", THEN conjunct1, rule_format, OF ok]
  have "\<exists>it \<in> set (items (refresh_items sample_fs ?fb)). type it = ''parent''"
    by simp
  then have ex: "list_ex (\<lambda>it. type it = ''parent'') (items (refresh_items sample_fs ?fb))"
    by (simp add: list_ex_iff)
  have bad: "failed_fs (current_path ?fb) = Inl ''[Errno 5] EIO''"
    by (simp add: failed_fs_def)
  from refresh_items_parent[of failed_fs ?fb _ "''[Errno 5] EIO''", THEN conjunct2, THEN conjunct1,
      rule_format, OF bad]
  have err: "items (refresh_items failed_fs ?fb)
          = [\<lparr>name = ''Error: [Errno 5] EIO'', type = ''error'', path = []\<rparr>]"
    by simp
  let ?root = "\<lparr>current_path = ''/'', items = [], selected_index = 0, scroll_offset = 0\<rparr>"
  from refresh_items_parent[of sample_fs ?root, THEN conjunct2, THEN conjunct2, THEN conjunct1]
  have "list_all (\<lambda>it. name it \<noteq> ''main.py'') (items (FileBrowser_init sample_fs))"
    by (simp add: list_all_iff FileBrowser_init_def)
  with ok ex bad err show ?thesis by simp
qed

subsection \<open>Claim C8: entering a file\<close>

text \<open>
  Claim C8. When the selected item has type \<open>file\<close>, \<open>enter_selected\<close> returns that
  item's path and the browser is unchanged.
\<close>

theorem enter_selected_file:
  "get_selected_item fb = Some it \<Longrightarrow> type it = ''file'' \<Longrightarrow>
     enter_selected fs fb = (fb, Some (path it))"
  by (simp add: enter_selected_def)

text \<open>The theorem at a concrete state: the root of the sample file system, \<open>a.py\<close> selected.\<close>

theorem enter_selected_file_witness:
  "get_selected_item (FileBrowser_init sample_fs)
     = Some \<lparr>name = ''a.py'', type = ''file'', path = ''/a.py''\<rparr> \<and>
   enter_selected sample_fs (FileBrowser_init sample_fs)
     = (FileBrowser_init sample_fs, Some ''/a.py'')"
proof -
  let ?it = "\<lparr>name = ''a.py'', type = ''file'', path = ''/a.py''\<rparr>"
  have sel: "get_selected_item (FileBrowser_init sample_fs) = Some ?it"
    by code_simp
  have "type ?it = ''file''" by simp
  from enter_selected_file[OF sel this, of sample_fs]
  have "enter_selected sample_fs (FileBrowser_init sample_fs)
          = (FileBrowser_init sample_fs, Some ''/a.py'')" by simp
  with sel show ?thesis by simp
qed

subsection \<open>Claim C9: entering a directory and going back to the menu\<close>

lemma get_selected_item_in_items:
  "get_selected_item fb = Some it \<Longrightarrow> it \<in> set (items fb)"
  by (auto simp: get_selected_item_def split: if_splits)

lemma root_dir_item_path:
  assumes "current_path fb = ''/''" "it \<in> set (items (refresh_items fs fb))" "type it = ''dir''"
  shows "path it = ''/'' @ name it"
proof (cases "fs (current_path fb)")
  case (Inl e)
  with assms(2,3) show ?thesis by (simp add: refresh_items_error[of fs fb e])
next
  case (Inr entries)
  with assms(1,2) have "it \<in> set (scan_entries fs ''/'' (sort entries))"
    by (simp add: refresh_items_listed[of fs fb entries])
  from scan_entries_item[OF this] show ?thesis by simp
qed

text \<open>
  Claim C9. The browser is at the root \<open>/\<close>, its items are the listing of the root, and
  the selected item is a directory named \<open>tools\<close>. Then \<open>handle_cbin_input\<close> with
  \<open>'btn2_short'\<close> sets \<open>current_path\<close> to \<open>/tools\<close> and refreshes the items, changing
  nothing but the browser; and \<open>handle_cbin_input\<close> with \<open>'both_short'\<close> on the
  resulting state changes nothing but \<open>mode\<close>, which becomes \<open>'menu'\<close>.
\<close>

theorem handle_cbin_input_enter_and_back:
  assumes "current_path (file_browser os) = ''/''"
    and "items (file_browser os) = items (refresh_items fs (file_browser os))"
    and "get_selected_item (file_browser os) = Some it"
    and "name it = ''tools''" and "type it = ''dir''"
  shows "(let os1 = os\<lparr>file_browser :=
                         refresh_items fs ((file_browser os)\<lparr>current_path := ''/tools''\<rparr>)\<rparr>
          in handle_cbin_input body requested late fs ''btn2_short'' os = Inr os1 \<and>
             current_path (file_browser os1) = ''/tools'' \<and>
             handle_cbin_input body requested late fs ''both_short'' os1 = Inr (os1\<lparr>mode := ''menu''\<rparr>))"
proof -
  from assms(3) have "it \<in> set (items (file_browser os))"
    by (rule get_selected_item_in_items)
  with assms(2) have "it \<in> set (items (refresh_items fs (file_browser os)))" by simp
  from root_dir_item_path[OF assms(1) this assms(5)] assms(4)
  have p: "path it = ''/tools''" by simp
  have enter: "enter_selected fs (file_browser os) =
      (refresh_items fs ((file_browser os)\<lparr>current_path := ''/tools''\<rparr>), None)"
    using assms(3,5) p by (simp add: enter_selected_def)
  have "handle_cbin_input body requested late fs ''btn2_short'' os =
      Inr (os\<lparr>file_browser := refresh_items fs ((file_browser os)\<lparr>current_path := ''/tools''\<rparr>)\<rparr>)"
    by (simp add: handle_cbin_input_def enter)
  moreover have "current_path (refresh_items fs ((file_browser os)\<lparr>current_path := ''/tools''\<rparr>))
      = ''/tools''"
    by (simp add: refresh_items_current_path)
  moreover have "\<And>s. handle_cbin_input body requested late fs ''both_short'' s = Inr (s\<lparr>mode := ''menu''\<rparr>)"
    by (simp add: handle_cbin_input_def)
  ultimately show ?thesis by (simp add: Let_def)
qed

text \<open>The theorem on the sample state, where \<open>tools\<close> is the selected entry of the root.\<close>

theorem handle_cbin_input_enter_and_back_witness:
  "current_path (file_browser sample_os) = ''/'' \<and>
   get_selected_item (file_browser sample_os)
     = Some \<lparr>name = ''tools'', type = ''dir'', path = ''/tools''\<rparr> \<and>
   handle_cbin_input Body_completed False False sample_fs ''btn2_short'' sample_os
     = Inr (sample_os\<lparr>file_browser :=
              refresh_items sample_fs ((file_browser sample_os)\<lparr>current_path := ''/tools''\<rparr>)\<rparr>) \<and>
   handle_cbin_input Body_completed False False sample_fs ''both_short''
       (sample_os\<lparr>file_browser :=
          refresh_items sample_fs ((file_browser sample_os)\<lparr>current_path := ''/tools''\<rparr>)\<rparr>)
     = Inr (sample_os\<lparr>file_browser :=
              refresh_items sample_fs ((file_browser sample_os)\<lparr>current_path := ''/tools''\<rparr>),
            mode := ''menu''\<rparr>)"
proof -
  let ?it = "\<lparr>name = ''tools'', type = ''dir'', path = ''/tools''\<rparr>"
  have fb: "file_browser sample_os =
      \<lparr>current_path = ''/'',
       items = [\<lparr>name = ''a.py'', type = ''file'', path = ''/a.py''\<rparr>, ?it],
       selected_index = 1, scroll_offset = 0\<rparr>"
    by code_simp
  have root: "current_path (file_browser sample_os) = ''/''"
    by (simp add: fb)
  have listing: "items (file_browser sample_os) = items (refresh_items sample_fs (file_browser sample_os))"
    unfolding fb by code_simp
  have sel: "get_selected_item (file_browser sample_os) = Some ?it"
    by (simp add: fb get_selected_item_def)
  have "name ?it = ''tools''" "type ?it = ''dir''" by simp_all
  from handle_cbin_input_enter_and_back[OF root listing sel this, of Body_completed False False]
  show ?thesis using root sel by (simp add: Let_def)
qed

subsection \<open>Claim C10: the parent path\<close>

lemma split_append:
  "c \<notin> set s \<Longrightarrow> split c rest = w # ws \<Longrightarrow> split c (s @ rest) = (s @ w) # ws"
  by (induction s) auto

lemma split_path:
  "\<forall>seg \<in> set segs. c \<notin> set seg \<Longrightarrow>
     split c (concat (map (\<lambda>seg. c # seg) segs)) = [] # segs"
proof (induction segs)
  case Nil
  then show ?case by simp
next
  case (Cons seg segs)
  then have "split c (concat (map (\<lambda>seg. c # seg) segs)) = [] # segs" by simp
  with Cons.prems have "split c (seg @ concat (map (\<lambda>seg. c # seg) segs)) = (seg @ []) # segs"
    by (intro split_append) simp_all
  then show ?case by simp
qed

lemma join_path:
  "join [c] (x # xs) = x @ concat (map (\<lambda>seg. c # seg) xs)"
  by (induction xs arbitrary: x) simp_all

lemma rstrip_unchanged:
  assumes "s \<noteq> []" "last s \<noteq> c"
  shows "rstrip c s = s"
proof -
  have "rev (butlast s @ [last s]) = last s # rev (butlast s)" by simp
  moreover have "butlast s @ [last s] = s" using assms(1) by simp
  ultimately have r: "rev s = last s # rev (butlast s)" by (simp only:)
  have "dropWhile (\<lambda>x. x = c) (last s # rev (butlast s)) = last s # rev (butlast s)"
    using assms(2) by simp
  then have "dropWhile (\<lambda>x. x = c) (rev s) = rev s" by (simp only: r)
  then show ?thesis by (simp only: rstrip_def rev_rev_ident)
qed

lemma last_path_of:
  assumes "segs \<noteq> []" "last segs \<noteq> []"
  shows "path_of segs \<noteq> [] \<and> last (path_of segs) = last (last segs)"
proof -
  from assms(1) have "segs = butlast segs @ [last segs]" by simp
  then have "path_of segs = path_of (butlast segs) @ CHR ''/'' # last segs"
    by (metis (no_types, lifting) path_of_def concat.simps(1,2) concat_append list.simps(8,9)
        map_append append_Nil2)
  with assms(2) show ?thesis by simp
qed

lemma path_of_eq_Nil:
  "path_of segs = [] \<longleftrightarrow> segs = []"
  by (cases segs) (simp_all add: path_of_def)

text \<open>
  Claim C10. For a \<open>current_path\<close> of the form \<open>/seg1/.../segN\<close> with \<open>N \<ge> 1\<close> segments,
  each of them non-empty and free of \<open>/\<close>, \<open>_get_parent_path\<close> returns the path of the
  first \<open>N - 1\<close> segments, which is \<open>/\<close> when \<open>N = 1\<close>; for \<open>current_path = /\<close> it
  returns \<open>/\<close>. And when \<open>refresh_items\<close> lists a directory other than the root, the
  first item is the \<open>parent\<close> entry whose path is that parent path.
\<close>

theorem get_parent_path_up:
  "(segs \<noteq> [] \<and> (\<forall>seg \<in> set segs. seg \<noteq> [] \<and> CHR ''/'' \<notin> set seg) \<and>
    current_path fb = path_of segs \<longrightarrow>
      get_parent_path fb = (if length segs = 1 then ''/'' else path_of (butlast segs))) \<and>
   (current_path fb = ''/'' \<longrightarrow> get_parent_path fb = ''/'') \<and>
   (current_path fb \<noteq> ''/'' \<and> fs (current_path fb) = Inr entries \<longrightarrow>
      hd (items (refresh_items fs fb))
        = \<lparr>name = ''..'', type = ''parent'', path = get_parent_path fb\<rparr>)"
proof (intro conjI impI)
  assume a: "segs \<noteq> [] \<and> (\<forall>seg \<in> set segs. seg \<noteq> [] \<and> CHR ''/'' \<notin> set seg) \<and>
    current_path fb = path_of segs"
  then have ne: "segs \<noteq> []" and segs: "\<forall>seg \<in> set segs. seg \<noteq> [] \<and> CHR ''/'' \<notin> set seg"
    and cp: "current_path fb = path_of segs" by simp_all
  from ne segs have l: "last segs \<noteq> []" "CHR ''/'' \<notin> set (last segs)"
    using last_in_set by blast+
  from last_path_of[OF ne l(1)] l have
    pne: "path_of segs \<noteq> []" and lp: "last (path_of segs) \<noteq> CHR ''/''"
    using last_in_set by fastforce+
  have not_root: "path_of segs \<noteq> ''/''"
    using lp by auto
  have strip: "rstrip CHR ''/'' (path_of segs) = path_of segs"
    using pne lp by (rule rstrip_unchanged)
  have parts: "split CHR ''/'' (path_of segs) = [] # segs"
    unfolding path_of_def using segs by (intro split_path) simp
  from ne have bl: "butlast ([] # segs) = [] # butlast segs" by simp
  have joined: "join ''/'' ([] # butlast segs) = path_of (butlast segs)"
    by (simp add: join_path path_of_def)
  have empty: "path_of (butlast segs) = [] \<longleftrightarrow> length segs = 1"
    using ne by (cases segs) (simp_all add: path_of_eq_Nil)
  have "get_parent_path fb =
      (if path_of (butlast segs) = [] then ''/'' else path_of (butlast segs))"
    using not_root ne by (simp add: get_parent_path_def cp strip parts bl joined Let_def)
  with empty show "get_parent_path fb = (if length segs = 1 then ''/'' else path_of (butlast segs))"
    by simp
next
  assume "current_path fb = ''/''"
  then show "get_parent_path fb = ''/''" by (simp add: get_parent_path_def)
next
  assume "current_path fb \<noteq> ''/'' \<and> fs (current_path fb) = Inr entries"
  then show "hd (items (refresh_items fs fb))
        = \<lparr>name = ''..'', type = ''parent'', path = get_parent_path fb\<rparr>"
    by (simp add: refresh_items_listed[of fs fb entries])
qed

text \<open>
  The theorem at concrete paths: the parent of \<open>/tools/led\<close> is \<open>/tools\<close>, the parent of
  \<open>/tools\<close> is \<open>/\<close>, and the listing of \<open>/tools\<close> starts with the entry that points to
  \<open>/\<close>.
\<close>

theorem get_parent_path_up_witness:
  "get_parent_path \<lparr>current_path = ''/tools/led'', items = [], selected_index = 0, scroll_offset = 0\<rparr>
     = ''/tools'' \<and>
   get_parent_path \<lparr>current_path = ''/tools'', items = [], selected_index = 0, scroll_offset = 0\<rparr>
     = ''/'' \<and>
   get_parent_path \<lparr>current_path = ''/'', items = [], selected_index = 0, scroll_offset = 0\<rparr>
     = ''/'' \<and>
   hd (items (refresh_items sample_fs
         \<lparr>current_path = ''/tools'', items = [], selected_index = 0, scroll_offset = 0\<rparr>))
     = \<lparr>name = ''..'', type = ''parent'', path = ''/''\<rparr>"
proof -
  let ?deep = "\<lparr>current_path = ''/tools/led'', items = [], selected_index = 0, scroll_offset = 0\<rparr>"
  let ?tools = "\<lparr>current_path = ''/tools'', items = [], selected_index = 0, scroll_offset = 0\<rparr>"
  let ?root = "\<lparr>current_path = ''/'', items = [], selected_index = 0, scroll_offset = 0\<rparr>"
  have "[''tools'', ''led''] \<noteq> [] \<and>
      (\<forall>seg \<in> set [''tools'', ''led'']. seg \<noteq> [] \<and> CHR ''/'' \<notin> set seg) \<and>
      current_path ?deep = path_of [''tools'', ''led'']"
    by (simp add: path_of_def)
  from get_parent_path_up[of "[''tools'', ''led'']" ?deep, THEN conjunct1, rule_format, OF this]
  have deep: "get_parent_path ?deep = ''/tools''" by (simp add: path_of_def)
  have "[''tools''] \<noteq> [] \<and>
      (\<forall>seg \<in> set [''tools'']. seg \<noteq> [] \<and> CHR ''/'' \<notin> set seg) \<and>
      current_path ?tools = path_of [''tools'']"
    by (simp add: path_of_def)
  from get_parent_path_up[of "[''tools'']" ?tools, THEN conjunct1, rule_format, OF this]
  have tools: "get_parent_path ?tools = ''/''" by simp
  have "current_path ?root = ''/''" by simp
  from get_parent_path_up[of _ ?root, THEN conjunct2, THEN conjunct1, rule_format, OF this]
  have root: "get_parent_path ?root = ''/''" .
  have "current_path ?tools \<noteq> ''/'' \<and> sample_fs (current_path ?tools) = Inr [''blink.py'']"
    by (simp add: sample_fs_def)
  from get_parent_path_up[of _ ?tools sample_fs "[''blink.py'']", THEN conjunct2, THEN conjunct2,
      rule_format, OF this] tools
  have "hd (items (refresh_items sample_fs ?tools)) = \<lparr>name = ''..'', type = ''parent'', path = ''/''\<rparr>"
    by simp
  with deep tools root show ?thesis by simp
qed

section \<open>Properties of the subprocess manager\<close>

subsection \<open>Claim C2: the exit flag after \<open>execute_file\<close>\<close>

lemma execute_file_py:
  assumes "endswith filepath ''.py''"
  shows "execute_file body requested late filepath (pc, sm) =
           (case body of
              Body_completed \<Rightarrow>
                ((pc\<lparr>should_exit := late\<rparr>, sm\<lparr>running := False\<rparr>),
                 Some [''Process exited'', ''normally''])
            | Body_keyboard_interrupt \<Rightarrow>
                ((pc\<lparr>should_exit := late\<rparr>, sm\<lparr>running := False\<rparr>),
                 Some [''Process'', ''interrupted''])
            | Body_exception error_msg \<Rightarrow>
                ((pc\<lparr>should_exit := late\<rparr>, sm\<lparr>running := False\<rparr>),
                 Some [''Exec Error:'', take 40 error_msg,
                       if length error_msg > 40 then take 40 (drop 40 error_msg) else []])
            | Body_uncaught \<Rightarrow>
                ((pc\<lparr>should_exit := requested \<or> late\<rparr>, sm\<lparr>running := True\<rparr>), None))"
  using assms
  by (cases body; cases requested; cases late)
     (simp_all add: execute_file_def clear_exit_def request_exit_def monitor_request_def)

text \<open>
  A \<open>request_exit()\<close> of a monitor thread that lands after the cleanup is not undone:
  the call returns with the flag set, whatever the branch.
\<close>

lemma execute_file_late_request:
  "should_exit (fst (fst (execute_file body requested True filepath (pc, sm))))"
  by (cases body; cases requested)
     (simp_all add: execute_file_def clear_exit_def request_exit_def monitor_request_def)

text \<open>
  Claim C2, as the code has it. When the path ends in \<open>.py\<close> and the call returns, that
  is on normal completion, on \<open>KeyboardInterrupt\<close> and on any other \<open>Exception\<close>, the
  cleanup has cleared the flag and \<open>running\<close>, whatever the flag was on entry and whether
  or not the monitor set it while the script ran: the flag is clear and \<open>running\<close> is
  false after the call, provided no \<open>request_exit()\<close> of a monitor thread lands between
  that cleanup and the return; and the call does return in these three cases. When the
  path does not end in \<open>.py\<close>, the call returns the rejection lines before anything else
  and does not touch the flag or the manager: without a monitor write during the call
  they are as they were on entry.
\<close>

theorem execute_file_exit_flag:
  "(endswith filepath ''.py'' \<and> \<not> late \<and>
    execute_file body requested late filepath (pc, sm) = (st', Some result) \<longrightarrow>
      \<not> should_exit (fst st') \<and> \<not> running (snd st')) \<and>
   (endswith filepath ''.py'' \<and> body \<noteq> Body_uncaught \<longrightarrow>
      snd (execute_file body requested late filepath (pc, sm)) \<noteq> None) \<and>
   (\<not> endswith filepath ''.py'' \<and> \<not> late \<longrightarrow>
      execute_file body requested late filepath (pc, sm)
        = ((pc, sm), Some [''Error:'', ''Not a .py file'']))"
proof (intro conjI impI)
  assume a: "endswith filepath ''.py'' \<and> \<not> late \<and>
    execute_file body requested late filepath (pc, sm) = (st', Some result)"
  then have py: "endswith filepath ''.py''" by simp
  from a show "\<not> should_exit (fst st')" "\<not> running (snd st')"
    unfolding execute_file_py[OF py] by (cases body; auto)+
next
  assume a: "endswith filepath ''.py'' \<and> body \<noteq> Body_uncaught"
  then have py: "endswith filepath ''.py''" by simp
  from a show "snd (execute_file body requested late filepath (pc, sm)) \<noteq> None"
    unfolding execute_file_py[OF py] by (cases body) simp_all
next
  assume "\<not> endswith filepath ''.py'' \<and> \<not> late"
  then show "execute_file body requested late filepath (pc, sm)
        = ((pc, sm), Some [''Error:'', ''Not a .py file''])"
    by (simp add: execute_file_def monitor_request_def)
qed

text \<open>
  Claim C2 as stated fails. A script runs to its end while the user's both-button tap is
  still being decoded by the monitor, whose \<open>request_exit()\<close> lands after the cleanup: the
  call returns with the flag set. The next call is for a file that is not a script, with
  no monitor write at all: it returns the rejection lines and the flag is still set,
  since the rejection branch never clears it.
\<close>

theorem execute_file_exit_flag_counterexample:
  "execute_file Body_completed False True ''/a.py''
       (\<lparr>should_exit = False\<rparr>, \<lparr>running = False\<rparr>)
     = ((\<lparr>should_exit = True\<rparr>, \<lparr>running = False\<rparr>),
        Some [''Process exited'', ''normally'']) \<and>
   execute_file Body_completed False False ''/notes.txt''
       (\<lparr>should_exit = True\<rparr>, \<lparr>running = False\<rparr>)
     = ((\<lparr>should_exit = True\<rparr>, \<lparr>running = False\<rparr>), Some [''Error:'', ''Not a .py file''])"
  by (simp add: execute_file_def endswith_def clear_exit_def request_exit_def
      monitor_request_def)

text \<open>
  The theorem at concrete calls: an interrupted script with the flag set on entry and
  set again by the monitor while the script ran, and a rejected path.
\<close>

theorem execute_file_exit_flag_witness:
  "endswith ''/a.py'' ''.py'' \<and>
   execute_file Body_keyboard_interrupt True False ''/a.py''
       (\<lparr>should_exit = True\<rparr>, \<lparr>running = False\<rparr>)
     = ((\<lparr>should_exit = False\<rparr>, \<lparr>running = False\<rparr>), Some [''Process'', ''interrupted'']) \<and>
   \<not> should_exit (fst (\<lparr>should_exit = False\<rparr>, \<lparr>running = False\<rparr>)) \<and>
   snd (execute_file Body_keyboard_interrupt True False ''/a.py''
          (\<lparr>should_exit = True\<rparr>, \<lparr>running = False\<rparr>)) \<noteq> None \<and>
   \<not> endswith ''/notes.txt'' ''.py'' \<and>
   execute_file Body_completed False False ''/notes.txt''
       (\<lparr>should_exit = False\<rparr>, \<lparr>running = False\<rparr>)
     = ((\<lparr>should_exit = False\<rparr>, \<lparr>running = False\<rparr>), Some [''Error:'', ''Not a .py file''])"
proof -
  let ?st = "(\<lparr>should_exit = False\<rparr>, \<lparr>running = False\<rparr>)"
  have py: "endswith ''/a.py'' ''.py''" by (simp add: endswith_def)
  have run: "execute_file Body_keyboard_interrupt True False ''/a.py''
               (\<lparr>should_exit = True\<rparr>, \<lparr>running = False\<rparr>)
             = (?st, Some [''Process'', ''interrupted''])"
    by (simp add: execute_file_def endswith_def clear_exit_def request_exit_def
        monitor_request_def)
  from py run have "endswith ''/a.py'' ''.py'' \<and> \<not> False \<and>
      execute_file Body_keyboard_interrupt True False ''/a.py''
        (\<lparr>should_exit = True\<rparr>, \<lparr>running = False\<rparr>) = (?st, Some [''Process'', ''interrupted''])"
    by simp
  from execute_file_exit_flag[THEN conjunct1, rule_format, OF this]
  have clear: "\<not> should_exit (fst ?st)" by simp
  from py have "endswith ''/a.py'' ''.py'' \<and> Body_keyboard_interrupt \<noteq> Body_uncaught" by simp
  from execute_file_exit_flag[THEN conjunct2, THEN conjunct1, rule_format, OF this]
  have returns: "snd (execute_file Body_keyboard_interrupt True False ''/a.py''
      (\<lparr>should_exit = True\<rparr>, \<lparr>running = False\<rparr>)) \<noteq> None" .
  have rej: "\<not> endswith ''/notes.txt'' ''.py'' \<and> \<not> False" by (simp add: endswith_def)
  from execute_file_exit_flag[THEN conjunct2, THEN conjunct2, rule_format, OF rej]
  have "execute_file Body_completed False False ''/notes.txt'' ?st
          = (?st, Some [''Error:'', ''Not a .py file''])" .
  with py run clear returns rej show ?thesis by simp
qed

subsection \<open>Claim C7: the lines of an execution error\<close>

text \<open>
  Claim C7 at a script that raises \<open>IndexError\<close>, whose message \<open>list index out of range\<close>
  has 23 characters. The cleanup is done (flag clear, \<open>running\<close> false), but the message
  is cut at 40 and 80 characters, not at the 16 characters of a display line: it comes
  back whole on one line, the second message line is empty, and \<open>draw_lines\<close> shows only
  its first 16 characters.
\<close>

theorem execute_file_error_lines:
  "execute_file (Body_exception ''list index out of range'') False False ''/a.py''
       (\<lparr>should_exit = False\<rparr>, \<lparr>running = False\<rparr>)
     = ((\<lparr>should_exit = False\<rparr>, \<lparr>running = False\<rparr>),
        Some [''Exec Error:'', ''list index out of range'', []]) \<and>
   length ''list index out of range'' = 23 \<and>
   max_chars = 16 \<and>
   draw_lines [''Exec Error:'', ''list index out of range'', []] 0
     = [''Exec Error:'', ''list index out o'', []]"
  by (simp add: execute_file_def endswith_def clear_exit_def monitor_request_def draw_lines_def
      max_chars_def max_lines_def)

end
